theory Spec2Isabelle
  imports Complex_Main "HOL-Library.AList"
begin

section \<open>Data model of the Steam plugin\<close>

text \<open>
  The plugin (\<^verbatim>\<open>plugin(context)\<close> in \<^verbatim>\<open>src/components/TabContent.js\<close>) keeps one
  mutable \<^verbatim>\<open>state\<close> object and talks to three collaborators: the agent service, the
  host context and the console. The model passes the state explicitly and returns the
  list of outbound calls each operation makes, in the order it makes them; a property
  write that lands on a builtin object instead of the state is listed among them.

  JavaScript object fields that may be absent (or \<^verbatim>\<open>null\<close>) are options. A rejected
  promise or a thrown exception is an \<open>error\<close> value. \<^verbatim>\<open>Date.now()\<close> is the parameter
  \<open>now\<close> of each entry point. \<^verbatim>\<open>console.log\<close> output is not recorded;
  \<^verbatim>\<open>console.error\<close> output is, with the fixed prefix of its message.
\<close>

datatype error =
    TypeError
  | ExternalCallError string
  | DecodeError string
  | FileNotFound string

text \<open>An agent object as the agent service hands it out.\<close>

record agent =
  agent_id :: string
  hostname :: string
  platform :: "string option"
  online :: bool

text \<open>An entry of \<^verbatim>\<open>state.agents\<close>; only \<^verbatim>\<open>id\<close> is always there.\<close>

record agent_entry =
  entry_id :: string
  entry_hostname :: "string option"
  entry_platform :: "string option"
  enabled :: "bool option"
  childId :: "string option"
  lastSeen :: "int option"
  entry_allowed :: "bool option"
  lastUpdate :: "int option"

text \<open>An entry of \<^verbatim>\<open>state.policies\<close>.\<close>

record policy =
  processName :: "string option"
  alternativeProcesses :: "string list"
  allowed :: bool
  policy_checkInterval :: int
  createdAt :: int

record violation =
  v_agentId :: string
  v_processName :: "string option"
  v_timestamp :: int
  v_hostname :: string

record settings =
  checkInterval :: int
  killOnViolation :: bool
  notifyParent :: bool

text \<open>
  \<^verbatim>\<open>state.agents\<close> is enumerated by \<^verbatim>\<open>Object.values\<close>, so it is an association list in
  insertion order; \<^verbatim>\<open>state.policies\<close> is only read and written by key.
\<close>

record plugin_state =
  agents :: "(string \<times> agent_entry) list"
  policies :: "string \<rightharpoonup> policy"
  violations :: "violation list"
  settings :: settings
  lastSync :: "int option"

text \<open>The argument of \<^verbatim>\<open>agentService.createPolicy\<close>.\<close>

record create_payload =
  cp_processName :: "string option"
  cp_processAlternatives :: "string list"
  cp_allowed :: bool
  cp_checkInterval :: int
  cp_onDetected :: string
  cp_onViolation :: string
  cp_plugin :: string
  cp_category :: string
  cp_platform :: string

text \<open>The partial policy passed to \<^verbatim>\<open>agentService.updatePolicy\<close>.\<close>

record update_payload =
  up_processName :: "string option"
  up_allowed :: "bool option"
  up_checkInterval :: "int option"
  up_enabled :: "bool option"

record activity =
  act_type :: string
  act_message :: string
  act_timestamp :: int
  act_severity :: string

datatype call =
    ListAgents
  | GetAgent string
  | CreatePolicy string create_payload
  | UpdatePolicy string update_payload
  | SendToRenderer string violation
  | LogActivity activity
  | ConfigurationUpdate plugin_state
  | StatusUpdate string string
  | ConsoleError string
  | WriteOnBuiltin string string

text \<open>
  What the agent service answers. Each call either resolves or rejects; the answer
  depends on the arguments of the call only.
\<close>

record agent_service =
  listAgents :: "error + agent list"
  getAgent :: "string \<Rightarrow> error + agent option"
  createPolicy :: "string \<Rightarrow> create_payload \<Rightarrow> error option"
  updatePolicy :: "string \<Rightarrow> update_payload \<Rightarrow> error option"

text \<open>The optional members of the host context that the plugin tests before use.\<close>

record host_context =
  has_sendToRenderer :: bool
  has_logActivity :: bool

section \<open>Plain objects used as dictionaries\<close>

text \<open>
  \<^verbatim>\<open>state.agents\<close> and \<^verbatim>\<open>state.policies\<close> are plain objects. Reading
  \<^verbatim>\<open>obj[key]\<close> for a key the object does not own falls through to
  \<^verbatim>\<open>Object.prototype\<close>: for the names below the value read is a builtin function or
  object, which is truthy, and a property assigned through it lands on that builtin
  (\<open>WriteOnBuiltin name property\<close>). The builtins are taken as the runtime starts them:
  the model does not follow such a write into later reads.
\<close>

definition objectPrototypeMembers :: "string list" where
  "objectPrototypeMembers =
     [''constructor'', ''__proto__'', ''hasOwnProperty'', ''isPrototypeOf'',
      ''propertyIsEnumerable'', ''toLocaleString'', ''toString'', ''valueOf'',
      ''__defineGetter__'', ''__defineSetter__'', ''__lookupGetter__'', ''__lookupSetter__'']"

definition inheritsMember :: "string \<Rightarrow> bool" where
  "inheritsMember k = (k \<in> set objectPrototypeMembers)"






section \<open>Platform process names\<close>

text \<open>
  The table literal, written twice in the source with the same content. A lookup with a
  tag outside the three keys gives \<^verbatim>\<open>undefined\<close>; tags that name a member of
  \<^verbatim>\<open>Object.prototype\<close> are left out of the model.
\<close>

definition processNames :: "string \<rightharpoonup> string list" where
  "processNames =
     [''win32'' \<mapsto> [''Steam.exe'', ''steamwebhelper.exe'', ''gameoverlayui.exe''],
      ''darwin'' \<mapsto> [''steam_osx'', ''Steam.app'', ''steamwebhelper''],
      ''linux'' \<mapsto> [''steam'', ''steamwebhelper'', ''reaper'']]"

text \<open>JavaScript \<^verbatim>\<open>xs[0]\<close>: \<^verbatim>\<open>undefined\<close> on an empty array.\<close>

fun index0 :: "'a list \<Rightarrow> 'a option" where
  "index0 [] = None"
| "index0 (x # xs) = Some x"

text \<open>
  \<^verbatim>\<open>SteamMonitor.getProcessNames\<close>, with \<^verbatim>\<open>os.platform()\<close> as its argument:
  \<^verbatim>\<open>processNames[platform] || processNames.win32\<close>. It cannot throw.
\<close>

definition getProcessNames :: "string \<Rightarrow> string list" where
  "getProcessNames pf =
     (case processNames pf of
        Some names \<Rightarrow> names
      | None \<Rightarrow> [''Steam.exe'', ''steamwebhelper.exe'', ''gameoverlayui.exe''])"

definition getMainProcessName :: "string \<Rightarrow> string option" where
  "getMainProcessName pf = index0 (getProcessNames pf)"

section \<open>Policy configuration\<close>

text \<open>\<^verbatim>\<open>agent.platform || 'win32'\<close>: an absent or empty tag is falsy.\<close>

definition platformOrDefault :: "string option \<Rightarrow> string" where
  "platformOrDefault p = (case p of None \<Rightarrow> ''win32'' | Some s \<Rightarrow> if s = [] then ''win32'' else s)"

definition createPayload :: "string \<Rightarrow> string list \<Rightarrow> settings \<Rightarrow> create_payload" where
  "createPayload pf names s =
     \<lparr>cp_processName = index0 names,
      cp_processAlternatives = names,
      cp_allowed = False,
      cp_checkInterval = checkInterval s,
      cp_onDetected = ''check-quota'',
      cp_onViolation = (if killOnViolation s then ''kill-process'' else ''notify-only''),
      cp_plugin = ''@allow2/allow2automate-steam'',
      cp_category = ''gaming'',
      cp_platform = pf\<rparr>"

text \<open>
  \<^verbatim>\<open>configureSteamPolicy(agent)\<close>. The first component of the result is the exception
  that escapes, if any: \<^verbatim>\<open>processNames[platform][0]\<close> is evaluated before the
  \<^verbatim>\<open>try\<close>, and indexing \<^verbatim>\<open>undefined\<close> throws a TypeError. A rejected
  \<^verbatim>\<open>createPolicy\<close> is caught and logged, and the policy is not stored.
\<close>

definition configureSteamPolicy ::
  "agent_service \<Rightarrow> int \<Rightarrow> agent \<Rightarrow> plugin_state \<Rightarrow> error option \<times> plugin_state \<times> call list" where
  "configureSteamPolicy svc now a st =
     (let pf = platformOrDefault (platform a) in
      case processNames pf of
        None \<Rightarrow> (Some TypeError, st, [])
      | Some names \<Rightarrow>
          (let payload = createPayload pf names (settings st) in
           case createPolicy svc (agent_id a) payload of
             Some e \<Rightarrow>
               (None, st,
                [CreatePolicy (agent_id a) payload,
                 ConsoleError ''[Steam Plugin] Error configuring policy''])
           | None \<Rightarrow>
               (None,
                st\<lparr>policies := (policies st)(agent_id a \<mapsto>
                     \<lparr>processName = index0 names,
                      alternativeProcesses = names,
                      allowed = False,
                      policy_checkInterval = checkInterval (settings st),
                      createdAt = now\<rparr>)\<rparr>,
                [CreatePolicy (agent_id a) payload])))"


definition defaultState :: plugin_state where
  "defaultState =
     \<lparr>agents = [], policies = Map.empty, violations = [],
      settings = \<lparr>checkInterval = 30000, killOnViolation = True, notifyParent = True\<rparr>,
      lastSync = None\<rparr>"




fun updateCalls :: "call list \<Rightarrow> (string \<times> update_payload) list" where
  "updateCalls [] = []"
| "updateCalls (UpdatePolicy i p # cs) = (i, p) # updateCalls cs"
| "updateCalls (c # cs) = updateCalls cs"

section \<open>Reacting to authorization state\<close>

text \<open>
  The second argument of a \<^verbatim>\<open>stateChange\<close> event. The code reads \<^verbatim>\<open>paused\<close> and
  \<^verbatim>\<open>quota\<close>; a missing \<^verbatim>\<open>quota\<close> compares as \<^verbatim>\<open>undefined > 0\<close>, which is false.
  Quotas are whole numbers here.
\<close>

record allow2State =
  paused :: bool
  quota :: "int option"

definition steamAllowed :: "allow2State \<Rightarrow> bool" where
  "steamAllowed ns = (\<not> paused ns \<and> (case quota ns of None \<Rightarrow> False | Some q \<Rightarrow> 0 < q))"

text \<open>\<^verbatim>\<open>state.policies[agent.id]?.processName || 'Steam.exe'\<close>\<close>

definition policyProcessName :: "plugin_state \<Rightarrow> string \<Rightarrow> string" where
  "policyProcessName st i =
     (case policies st i of
        None \<Rightarrow> ''Steam.exe''
      | Some p \<Rightarrow>
          (case processName p of
             None \<Rightarrow> ''Steam.exe''
           | Some n \<Rightarrow> if n = [] then ''Steam.exe'' else n))"

definition allowedPayload :: "plugin_state \<Rightarrow> string \<Rightarrow> bool \<Rightarrow> update_payload" where
  "allowedPayload st i v =
     \<lparr>up_processName = Some (policyProcessName st i), up_allowed = Some v,
      up_checkInterval = None, up_enabled = None\<rparr>"

text \<open>
  \<^verbatim>\<open>updateSteamPolicy(agent, allow2State)\<close>. Everything after the first line is inside
  the \<^verbatim>\<open>try\<close>: a rejected \<^verbatim>\<open>updatePolicy\<close> skips the state update and the
  persisting, and is logged. \<^verbatim>\<open>if (state.agents[agent.id])\<close> is also true for an id
  without an entry that names a member of \<^verbatim>\<open>Object.prototype\<close>; the two writes then
  land on that builtin.
\<close>

definition updateSteamPolicy ::
  "agent_service \<Rightarrow> int \<Rightarrow> agent \<Rightarrow> allow2State \<Rightarrow> plugin_state \<Rightarrow> plugin_state \<times> call list" where
  "updateSteamPolicy svc now a ns st =
     (let payload = allowedPayload st (agent_id a) (steamAllowed ns) in
      case updatePolicy svc (agent_id a) payload of
        Some e \<Rightarrow>
          (st, [UpdatePolicy (agent_id a) payload,
                ConsoleError ''[Steam Plugin] Error updating policy''])
      | None \<Rightarrow>
          (case map_of (agents st) (agent_id a) of
             None \<Rightarrow>
               if inheritsMember (agent_id a)
               then (st, [UpdatePolicy (agent_id a) payload,
                          WriteOnBuiltin (agent_id a) ''allowed'',
                          WriteOnBuiltin (agent_id a) ''lastUpdate'',
                          ConfigurationUpdate st])
               else (st, [UpdatePolicy (agent_id a) payload, ConfigurationUpdate st])
           | Some e \<Rightarrow>
               (let st' = st\<lparr>agents := AList.update (agent_id a)
                            (e\<lparr>entry_allowed := Some (steamAllowed ns), lastUpdate := Some now\<rparr>)
                            (agents st)\<rparr>
                in (st', [UpdatePolicy (agent_id a) payload, ConfigurationUpdate st']))))"

text \<open>
  The body of the \<^verbatim>\<open>stateChange\<close> listener's loop over \<^verbatim>\<open>childAgents\<close>: fetch the
  live agent, skip it when the service answers \<^verbatim>\<open>null\<close>, log and go on when the fetch
  is rejected.
\<close>

definition updateLinkedAgent ::
  "agent_service \<Rightarrow> int \<Rightarrow> allow2State \<Rightarrow> agent_entry \<Rightarrow> plugin_state \<Rightarrow> plugin_state \<times> call list" where
  "updateLinkedAgent svc now ns ad st =
     (case getAgent svc (entry_id ad) of
        Inl e \<Rightarrow>
          (st, [GetAgent (entry_id ad), ConsoleError ''[Steam Plugin] Error getting agent''])
      | Inr None \<Rightarrow> (st, [GetAgent (entry_id ad)])
      | Inr (Some a) \<Rightarrow>
          (case updateSteamPolicy svc now a ns st of
             (st', tr) \<Rightarrow> (st', GetAgent (entry_id ad) # tr)))"

fun updateLinked ::
  "agent_service \<Rightarrow> int \<Rightarrow> allow2State \<Rightarrow> agent_entry list \<Rightarrow> plugin_state \<Rightarrow> plugin_state \<times> call list" where
  "updateLinked svc now ns [] st = (st, [])"
| "updateLinked svc now ns (ad # ads) st =
     (case updateLinkedAgent svc now ns ad st of
        (st', tr) \<Rightarrow>
          (case updateLinked svc now ns ads st' of (st'', tr') \<Rightarrow> (st'', tr @ tr')))"

text \<open>
  The \<^verbatim>\<open>stateChange\<close> listener:
  \<^verbatim>\<open>Object.values(state.agents).filter(a => a.childId === childId)\<close>, then the loop.
\<close>

definition on_stateChange ::
  "agent_service \<Rightarrow> int \<Rightarrow> string \<Rightarrow> allow2State \<Rightarrow> plugin_state \<Rightarrow> plugin_state \<times> call list" where
  "on_stateChange svc now cid ns st =
     updateLinked svc now ns (filter (\<lambda>e. childId e = Some cid) (map snd (agents st))) st"

section \<open>Violations\<close>

text \<open>
  \<^verbatim>\<open>String.prototype.toLowerCase\<close> and \<^verbatim>\<open>includes\<close> over byte strings: the letters
  \<^verbatim>\<open>A\<close> to \<^verbatim>\<open>Z\<close> are folded, every other character is kept.
\<close>

definition toLowerChar :: "char \<Rightarrow> char" where
  "toLowerChar c =
     (let n = (of_char c :: nat) in if 65 \<le> n \<and> n \<le> 90 then char_of (n + 32) else c)"

definition toLowerCase :: "string \<Rightarrow> string" where
  "toLowerCase s = map toLowerChar s"

fun startsWith :: "string \<Rightarrow> string \<Rightarrow> bool" where
  "startsWith s [] = True"
| "startsWith [] (p # ps) = False"
| "startsWith (c # cs) (p # ps) = (c = p \<and> startsWith cs ps)"

fun includes_str :: "string \<Rightarrow> string \<Rightarrow> bool" where
  "includes_str [] p = (p = [])"
| "includes_str (c # cs) p = (startsWith (c # cs) p \<or> includes_str cs p)"

text \<open>
  \<^verbatim>\<open>xs.slice(0, end)\<close> for an integer \<^verbatim>\<open>end\<close>: a negative end counts from the back.
\<close>

definition slice0 :: "'a list \<Rightarrow> int \<Rightarrow> 'a list" where
  "slice0 xs e = (if e < 0 then take (nat (int (length xs) + e)) xs else take (nat e) xs)"

text \<open>The payload of a \<^verbatim>\<open>violation\<close> event.\<close>

record violation_data =
  d_agentId :: string
  d_processName :: "string option"
  d_timestamp :: "int option"
  d_hostname :: string

text \<open>\<^verbatim>\<open>data.timestamp || Date.now()\<close>: an absent or zero timestamp is falsy.\<close>

definition makeViolation :: "int \<Rightarrow> violation_data \<Rightarrow> violation" where
  "makeViolation now d =
     \<lparr>v_agentId = d_agentId d,
      v_processName = d_processName d,
      v_timestamp = (case d_timestamp d of None \<Rightarrow> now | Some t \<Rightarrow> if t = 0 then now else t),
      v_hostname = d_hostname d\<rparr>"

text \<open>\<^verbatim>\<open>handleViolation(data)\<close>: \<^verbatim>\<open>unshift\<close>, cut to 100, notify, log, persist.\<close>

definition handleViolation ::
  "host_context \<Rightarrow> int \<Rightarrow> violation_data \<Rightarrow> plugin_state \<Rightarrow> plugin_state \<times> call list" where
  "handleViolation ctx now d st =
     (let v = makeViolation now d;
          vs = v # violations st;
          st' = st\<lparr>violations := (if 100 < length vs then slice0 vs 100 else vs)\<rparr>
      in (st',
          (if notifyParent (settings st) \<and> has_sendToRenderer ctx
           then [SendToRenderer ''steamViolation'' v] else []) @
          (if has_logActivity ctx
           then [LogActivity
                   \<lparr>act_type = ''steam_blocked'',
                    act_message = ''Steam was blocked on '' @ d_hostname d,
                    act_timestamp = v_timestamp v,
                    act_severity = ''warning''\<rparr>]
           else []) @
          [ConfigurationUpdate st']))"

text \<open>
  The \<^verbatim>\<open>violation\<close> listener:
  \<^verbatim>\<open>data.processName?.toLowerCase() || ''\<close>, then the \<^verbatim>\<open>includes('steam')\<close> filter.
\<close>

definition on_violation ::
  "host_context \<Rightarrow> int \<Rightarrow> violation_data \<Rightarrow> plugin_state \<Rightarrow> plugin_state \<times> call list" where
  "on_violation ctx now d st =
     (if includes_str (case d_processName d of None \<Rightarrow> [] | Some n \<Rightarrow> toLowerCase n) ''steam''
      then handleViolation ctx now d st
      else (st, []))"

text \<open>A run of violation events, each with the clock reading at its arrival.\<close>

fun handleViolations ::
  "host_context \<Rightarrow> (int \<times> violation_data) list \<Rightarrow> plugin_state \<Rightarrow> plugin_state" where
  "handleViolations ctx [] st = st"
| "handleViolations ctx ((now, d) # ds) st =
     handleViolations ctx ds (fst (handleViolation ctx now d st))"

section \<open>Request handlers\<close>

text \<open>
  A handler answers \<^verbatim>\<open>[null, result]\<close> (\<open>Inr\<close>) or \<^verbatim>\<open>[error]\<close> (\<open>Inl\<close>), and the
  model adds the state it leaves and the calls it made.
\<close>

record success_result =
  success :: bool

definition freshEntry :: "string \<Rightarrow> agent_entry" where
  "freshEntry i =
     \<lparr>entry_id = i, entry_hostname = None, entry_platform = None, enabled = None,
      childId = None, lastSeen = None, entry_allowed = None, lastUpdate = None\<rparr>"


text \<open>
  \<^verbatim>\<open>steam:unlinkAgent\<close>, with the same truthiness test on \<^verbatim>\<open>state.agents[agentId]\<close>.
\<close>

definition unlinkAgent ::
  "string \<Rightarrow> plugin_state \<Rightarrow> (error + success_result) \<times> plugin_state \<times> call list" where
  "unlinkAgent agentId st =
     (case map_of (agents st) agentId of
        None \<Rightarrow>
          if inheritsMember agentId
          then (Inr \<lparr>success = True\<rparr>, st,
                [WriteOnBuiltin agentId ''childId'', WriteOnBuiltin agentId ''enabled'',
                 ConfigurationUpdate st])
          else (Inr \<lparr>success = True\<rparr>, st, [ConfigurationUpdate st])
      | Some old \<Rightarrow>
          (let st' = st\<lparr>agents :=
                  AList.map_entry agentId
                    (\<lambda>e. e\<lparr>childId := None, enabled := Some False\<rparr>) (agents st)\<rparr>
           in (Inr \<lparr>success = True\<rparr>, st', [ConfigurationUpdate st'])))"

text \<open>
  A JavaScript number, as far as \<^verbatim>\<open>slice\<close> tells numbers apart, and the \<^verbatim>\<open>limit\<close> of a
  get-violations request: absent, \<^verbatim>\<open>null\<close> or a number. Limits of other types are left
  out.
\<close>

datatype js_number = Num rat | NaN | PosInfinity | NegInfinity

datatype limit_arg = LimitAbsent | LimitNull | LimitNumber js_number

text \<open>Rounding toward zero, as \<^verbatim>\<open>slice\<close> does with a fractional end.\<close>

definition truncateNumber :: "rat \<Rightarrow> int" where
  "truncateNumber q = (if q < 0 then - \<lfloor>- q\<rfloor> else \<lfloor>q\<rfloor>)"

text \<open>
  \<^verbatim>\<open>xs.slice(0, end)\<close> for any number: \<^verbatim>\<open>NaN\<close> counts as 0 and the infinities as the
  two ends of the list.
\<close>

definition sliceNumber :: "'a list \<Rightarrow> js_number \<Rightarrow> 'a list" where
  "sliceNumber xs e =
     (case e of
        Num q \<Rightarrow> slice0 xs (truncateNumber q)
      | NaN \<Rightarrow> slice0 xs 0
      | PosInfinity \<Rightarrow> xs
      | NegInfinity \<Rightarrow> [])"

text \<open>
  \<^verbatim>\<open>steam:getViolations\<close>. The default \<^verbatim>\<open>limit = 50\<close> of the parameter applies to an
  absent limit only; \<^verbatim>\<open>null\<close> is passed on to \<^verbatim>\<open>slice\<close>, where it counts as 0.
\<close>

definition getViolations :: "limit_arg \<Rightarrow> plugin_state \<Rightarrow> error + violation list" where
  "getViolations limit st =
     Inr (case limit of
            LimitAbsent \<Rightarrow> slice0 (violations st) 50
          | LimitNull \<Rightarrow> slice0 (violations st) 0
          | LimitNumber e \<Rightarrow> sliceNumber (violations st) e)"

text \<open>\<^verbatim>\<open>steam:getSettings\<close>\<close>

definition getSettings :: "plugin_state \<Rightarrow> error + settings" where
  "getSettings st = Inr (settings st)"

text \<open>The \<^verbatim>\<open>settings\<close> object of an update request: any subset of the three keys.\<close>

record settings_patch =
  patch_checkInterval :: "int option"
  patch_killOnViolation :: "bool option"
  patch_notifyParent :: "bool option"

text \<open>\<^verbatim>\<open>{ ...state.settings, ...settings }\<close>\<close>

definition mergeSettings :: "settings \<Rightarrow> settings_patch \<Rightarrow> settings" where
  "mergeSettings s p =
     \<lparr>checkInterval = (case patch_checkInterval p of None \<Rightarrow> checkInterval s | Some v \<Rightarrow> v),
      killOnViolation = (case patch_killOnViolation p of None \<Rightarrow> killOnViolation s | Some v \<Rightarrow> v),
      notifyParent = (case patch_notifyParent p of None \<Rightarrow> notifyParent s | Some v \<Rightarrow> v)\<rparr>"

definition intervalPayload :: "int \<Rightarrow> update_payload" where
  "intervalPayload ci =
     \<lparr>up_processName = None, up_allowed = None, up_checkInterval = Some ci, up_enabled = None\<rparr>"

text \<open>
  The loop of \<^verbatim>\<open>steam:updateSettings\<close> over the listed agents. It has no
  \<^verbatim>\<open>try\<close> of its own: the first rejected \<^verbatim>\<open>updatePolicy\<close> leaves it.
  \<^verbatim>\<open>if (state.policies[agent.id])\<close> is true for an id with a stored policy and for an
  id that names a member of \<^verbatim>\<open>Object.prototype\<close>.
\<close>

fun propagateInterval ::
  "agent_service \<Rightarrow> int \<Rightarrow> agent list \<Rightarrow> plugin_state \<Rightarrow> error option \<times> call list" where
  "propagateInterval svc ci [] st = (None, [])"
| "propagateInterval svc ci (a # as) st =
     (if policies st (agent_id a) = None \<and> \<not> inheritsMember (agent_id a)
      then propagateInterval svc ci as st
      else
        (case updatePolicy svc (agent_id a) (intervalPayload ci) of
           Some e \<Rightarrow> (Some e, [UpdatePolicy (agent_id a) (intervalPayload ci)])
         | None \<Rightarrow>
             (case propagateInterval svc ci as st of
                (r, tr) \<Rightarrow> (r, UpdatePolicy (agent_id a) (intervalPayload ci) # tr))))"

text \<open>
  \<^verbatim>\<open>steam:updateSettings\<close>. The handler's \<^verbatim>\<open>catch\<close> turns whatever escapes into
  \<^verbatim>\<open>[error]\<close>, without logging; the merged settings are stored and persisted before
  the fan-out starts. \<^verbatim>\<open>if (settings.checkInterval)\<close> is false for an absent or zero
  interval.
\<close>

definition updateSettings ::
  "agent_service \<Rightarrow> settings_patch \<Rightarrow> plugin_state \<Rightarrow> (error + success_result) \<times> plugin_state \<times> call list" where
  "updateSettings svc p st =
     (let st' = st\<lparr>settings := mergeSettings (settings st) p\<rparr> in
      case patch_checkInterval p of
        None \<Rightarrow> (Inr \<lparr>success = True\<rparr>, st', [ConfigurationUpdate st'])
      | Some ci \<Rightarrow>
          if ci = 0 then (Inr \<lparr>success = True\<rparr>, st', [ConfigurationUpdate st'])
          else
            (case listAgents svc of
               Inl e \<Rightarrow> (Inl e, st', [ConfigurationUpdate st', ListAgents])
             | Inr as \<Rightarrow>
                 (case propagateInterval svc ci as st' of
                    (Some e, tr) \<Rightarrow> (Inl e, st', ConfigurationUpdate st' # ListAgents # tr)
                  | (None, tr) \<Rightarrow>
                      (Inr \<lparr>success = True\<rparr>, st', ConfigurationUpdate st' # ListAgents # tr))))"

section \<open>The VDF file cache\<close>

text \<open>
  \<^verbatim>\<open>SteamVDFParser.parseFile\<close>. The file system is a map from paths to content and
  modification time, the decoder \<^verbatim>\<open>vdf.parse\<close> of the \<^verbatim>\<open>simple-vdf\<close> package is a
  parameter, and the result lists the file-system and decoder calls made.
\<close>

record vdf_file =
  f_content :: string
  f_mtime :: int

record 't cache_entry =
  ce_data :: 't
  ce_mtime :: int

datatype fs_op =
    StatSync string
  | ReadFileSync string
  | VdfParse string
  | ParserConsoleError string

text \<open>The \<^verbatim>\<open>try\<close> block: read, decode, stat, store; the \<^verbatim>\<open>catch\<close> logs and rethrows.\<close>

definition readAndParse ::
  "(string \<Rightarrow> error + 't) \<Rightarrow> (string \<rightharpoonup> vdf_file) \<Rightarrow> string \<Rightarrow> (string \<rightharpoonup> 't cache_entry)
     \<Rightarrow> (error + 't) \<times> (string \<rightharpoonup> 't cache_entry) \<times> fs_op list" where
  "readAndParse vdf_parse fs path cache =
     (case fs path of
        None \<Rightarrow>
          (Inl (FileNotFound path), cache,
           [ReadFileSync path, ParserConsoleError ''[SteamVDFParser] Error parsing VDF file:''])
      | Some f \<Rightarrow>
          (case vdf_parse (f_content f) of
             Inl e \<Rightarrow>
               (Inl e, cache,
                [ReadFileSync path, VdfParse (f_content f),
                 ParserConsoleError ''[SteamVDFParser] Error parsing VDF file:''])
           | Inr parsed \<Rightarrow>
               (Inr parsed,
                cache(path \<mapsto> \<lparr>ce_data = parsed, ce_mtime = f_mtime f\<rparr>),
                [ReadFileSync path, VdfParse (f_content f), StatSync path])))"

text \<open>
  The cache check comes first; its \<^verbatim>\<open>statSync\<close> is outside the \<^verbatim>\<open>try\<close>, so a
  cached path whose file is gone throws without a log line.
\<close>

definition parseFile ::
  "(string \<Rightarrow> error + 't) \<Rightarrow> (string \<rightharpoonup> vdf_file) \<Rightarrow> string \<Rightarrow> bool \<Rightarrow> (string \<rightharpoonup> 't cache_entry)
     \<Rightarrow> (error + 't) \<times> (string \<rightharpoonup> 't cache_entry) \<times> fs_op list" where
  "parseFile vdf_parse fs path useCache cache =
     (case (if useCache then cache path else None) of
        None \<Rightarrow> readAndParse vdf_parse fs path cache
      | Some cached \<Rightarrow>
          (case fs path of
             None \<Rightarrow> (Inl (FileNotFound path), cache, [StatSync path])
           | Some f \<Rightarrow>
               if ce_mtime cached = f_mtime f
               then (Inr (ce_data cached), cache, [StatSync path])
               else (case readAndParse vdf_parse fs path cache of
                       (r, cache', ops) \<Rightarrow> (r, cache', StatSync path # ops))))"

section \<open>Vocabulary of the statements\<close>

text \<open>The calls of one kind in a trace, in order.\<close>

fun forwarded :: "call list \<Rightarrow> (string \<times> violation) list" where
  "forwarded [] = []"
| "forwarded (SendToRenderer ch v # cs) = (ch, v) # forwarded cs"
| "forwarded (c # cs) = forwarded cs"

fun activities :: "call list \<Rightarrow> activity list" where
  "activities [] = []"
| "activities (LogActivity a # cs) = a # activities cs"
| "activities (c # cs) = activities cs"


text \<open>
  The filter of the violation listener in the words of its description: the name has a
  piece that equals the pattern once both are put in lower case.
\<close>

definition containsIgnoringCase :: "string \<Rightarrow> string \<Rightarrow> bool" where
  "containsIgnoringCase s p =
     (\<exists>pre mid post. s = pre @ mid @ post \<and> toLowerCase mid = toLowerCase p)"

text \<open>
  The update-policy calls the state-change listener makes for one linked entry: one call
  when the agent service returns the agent, none otherwise.
\<close>

definition updateCallsFor :: "agent_service \<Rightarrow> plugin_state \<Rightarrow> allow2State \<Rightarrow> agent_entry \<Rightarrow> (string \<times> update_payload) list" where
  "updateCallsFor svc st ns ad =
     (case getAgent svc (entry_id ad) of
        Inr (Some a) \<Rightarrow> [(agent_id a, allowedPayload st (agent_id a) (steamAllowed ns))]
      | _ \<Rightarrow> [])"

text \<open>
  Whether the run of the state-change listener over the entries \<open>ads\<close> records the
  allowed value under the key \<open>k\<close>: some entry's agent is returned with the id \<open>k\<close>
  and the update-policy call for \<open>k\<close> resolves.
\<close>

definition recordsAllowed ::
  "agent_service \<Rightarrow> plugin_state \<Rightarrow> allow2State \<Rightarrow> agent_entry list \<Rightarrow> string \<Rightarrow> bool" where
  "recordsAllowed svc st ns ads k =
     list_ex (\<lambda>ad. case getAgent svc (entry_id ad) of
                     Inr (Some a) \<Rightarrow>
                       agent_id a = k \<and>
                       updatePolicy svc k (allowedPayload st k (steamAllowed ns)) = None
                   | _ \<Rightarrow> False) ads"









section \<open>Example inputs\<close>

text \<open>
  Two agents linked to the subject \<^verbatim>\<open>S1\<close>, each with a stored policy; an agent service
  that resolves every call, one that has lost its agents, and one that rejects the policy
  calls for a given agent id.
\<close>

definition example_agent :: "string \<Rightarrow> string option \<Rightarrow> agent" where
  "example_agent i pf = \<lparr>agent_id = i, hostname = ''host-'' @ i, platform = pf, online = True\<rparr>"

definition service_ok :: agent_service where
  "service_ok =
     \<lparr>listAgents = Inr [example_agent ''A1'' (Some ''win32''), example_agent ''A2'' (Some ''linux'')],
      getAgent = (\<lambda>i. Inr (Some (example_agent i (Some ''win32'')))),
      createPolicy = (\<lambda>i p. None),
      updatePolicy = (\<lambda>i p. None)\<rparr>"

definition service_agent_gone :: agent_service where
  "service_agent_gone = service_ok\<lparr>getAgent := (\<lambda>i. Inr None)\<rparr>"

definition service_rejecting :: "string \<Rightarrow> agent_service" where
  "service_rejecting bad =
     service_ok
       \<lparr>createPolicy := (\<lambda>i p. if i = bad then Some (ExternalCallError ''agent unreachable'') else None),
        updatePolicy := (\<lambda>i p. if i = bad then Some (ExternalCallError ''agent unreachable'') else None)\<rparr>"

definition example_state :: plugin_state where
  "example_state =
     \<lparr>agents = [(''A1'', (freshEntry ''A1'')\<lparr>childId := Some ''S1'', enabled := Some True\<rparr>),
                (''A2'', (freshEntry ''A2'')\<lparr>childId := Some ''S1'', enabled := Some True\<rparr>)],
      policies = [''A1'' \<mapsto> \<lparr>processName = Some ''Steam.exe'',
                              alternativeProcesses = [''Steam.exe'', ''steamwebhelper.exe'', ''gameoverlayui.exe''],
                              allowed = False, policy_checkInterval = 30000, createdAt = 1\<rparr>,
                  ''A2'' \<mapsto> \<lparr>processName = Some ''steam'',
                              alternativeProcesses = [''steam'', ''steamwebhelper'', ''reaper''],
                              allowed = False, policy_checkInterval = 30000, createdAt = 2\<rparr>],
      violations = [],
      settings = \<lparr>checkInterval = 30000, killOnViolation = False, notifyParent = True\<rparr>,
      lastSync = None\<rparr>"

definition example_allow2State :: allow2State where
  "example_allow2State = \<lparr>paused = False, quota = Some 10\<rparr>"

definition example_data :: violation_data where
  "example_data =
     \<lparr>d_agentId = ''A1'', d_processName = Some ''Steam.exe'', d_timestamp = None, d_hostname = ''h1''\<rparr>"

definition example_violation :: violation where
  "example_violation =
     \<lparr>v_agentId = ''A1'', v_processName = Some ''Steam.exe'', v_timestamp = 1000, v_hostname = ''h1''\<rparr>"

definition context_full :: host_context where
  "context_full = \<lparr>has_sendToRenderer = True, has_logActivity = True\<rparr>"

definition context_bare :: host_context where
  "context_bare = \<lparr>has_sendToRenderer = False, has_logActivity = False\<rparr>"


definition example_vdf_parse :: "string \<Rightarrow> error + string list" where
  "example_vdf_parse s = (if s = [] then Inl (DecodeError ''empty input'') else Inr [s])"

definition example_fs :: "int \<Rightarrow> string \<Rightarrow> (string \<rightharpoonup> vdf_file)" where
  "example_fs t c = [''/steam/localconfig.vdf'' \<mapsto> \<lparr>f_content = c, f_mtime = t\<rparr>]"

section \<open>Process-name lookup\<close>

lemma getProcessNames_known:
  "getProcessNames ''win32'' = [''Steam.exe'', ''steamwebhelper.exe'', ''gameoverlayui.exe'']"
  "getProcessNames ''darwin'' = [''steam_osx'', ''Steam.app'', ''steamwebhelper'']"
  "getProcessNames ''linux'' = [''steam'', ''steamwebhelper'', ''reaper'']"
  by (simp_all add: getProcessNames_def processNames_def)

lemma getProcessNames_fallback:
  "pf \<notin> {''win32'', ''darwin'', ''linux''} \<Longrightarrow> getProcessNames pf = getProcessNames ''win32''"
  by (simp add: getProcessNames_def processNames_def)

text \<open>
  C6. The claim asks for the Windows fallback on an unknown platform tag in both lookups.
  \<^verbatim>\<open>SteamMonitor.getProcessNames\<close> has it (\<open>getProcessNames_fallback\<close>), but
  \<^verbatim>\<open>configureSteamPolicy\<close> only defaults an absent tag: for the agent
  \<^verbatim>\<open>{id: 'A1', hostname: 'h1', platform: 'freebsd', online: true}\<close> it throws a
  TypeError before any create-policy call is made, and the state is left as it was.
\<close>

theorem configureSteamPolicy_unknown_platform_throws:
  "configureSteamPolicy svc now
     \<lparr>agent_id = ''A1'', hostname = ''h1'', platform = Some ''freebsd'', online = True\<rparr> st
   = (Some TypeError, st, [])"
  by (simp add: configureSteamPolicy_def platformOrDefault_def processNames_def)

section \<open>The violation log\<close>

lemma handleViolation_violations:
  "violations (fst (handleViolation ctx now d st)) = take 100 (makeViolation now d # violations st)"
  by (simp add: handleViolation_def Let_def slice0_def)

lemma take_append_take: "take n (xs @ take n ys) = take n (xs @ ys)"
  by (simp add: min_def)

lemma handleViolations_violations:
  "length (violations st) \<le> 100 \<Longrightarrow>
   violations (handleViolations ctx ds st) =
     take 100 (rev (map (\<lambda>(now, d). makeViolation now d) ds) @ violations st)"
proof (induction ds arbitrary: st)
  case Nil
  then show ?case by simp
next
  case (Cons p ds)
  obtain now d where p: "p = (now, d)" by (cases p)
  let ?st1 = "fst (handleViolation ctx now d st)"
  have v1: "violations ?st1 = take 100 (makeViolation now d # violations st)"
    by (rule handleViolation_violations)
  then have "length (violations ?st1) \<le> 100" by simp
  then have "violations (handleViolations ctx ds ?st1) =
     take 100 (rev (map (\<lambda>(now, d). makeViolation now d) ds) @ violations ?st1)"
    by (rule Cons.IH)
  also have "\<dots> = take 100 (rev (map (\<lambda>(now, d). makeViolation now d) ds) @
                        (makeViolation now d # violations st))"
    unfolding v1 by (rule take_append_take)
  finally show ?case by (simp add: p)
qed

text \<open>
  C3. Starting from an empty log, after the appends of \<open>N\<close> violation events the log
  has \<open>min N 100\<close> entries, it is the newest-first list of the last 100 appended
  records, and for \<open>N > 0\<close> its first entry is the record appended last.
\<close>

theorem violation_log_after_appends:
  assumes "violations st = []"
  shows "length (violations (handleViolations ctx ds st)) = min (length ds) 100 \<and>
         violations (handleViolations ctx ds st) =
           take 100 (rev (map (\<lambda>(now, d). makeViolation now d) ds)) \<and>
         (ds \<noteq> [] \<longrightarrow>
            index0 (violations (handleViolations ctx ds st)) =
              Some (makeViolation (fst (last ds)) (snd (last ds))))"
proof -
  have eq: "violations (handleViolations ctx ds st) =
           take 100 (rev (map (\<lambda>(now, d). makeViolation now d) ds))"
    by (simp add: handleViolations_violations assms)
  have len: "length (violations (handleViolations ctx ds st)) = min (length ds) 100"
    by (simp add: eq)
  have "index0 (violations (handleViolations ctx ds st)) =
              Some (makeViolation (fst (last ds)) (snd (last ds)))" if "ds \<noteq> []"
  proof -
    from that obtain bs b where ds: "ds = bs @ [b]" by (cases ds rule: rev_cases) auto
    obtain now d where b: "b = (now, d)" by (cases b)
    have "violations (handleViolations ctx ds st) =
            take 100 (makeViolation now d # rev (map (\<lambda>(now, d). makeViolation now d) bs))"
      unfolding eq by (simp add: ds b)
    then show ?thesis by (simp add: ds b)
  qed
  with eq len show ?thesis by blast
qed

theorem violation_log_after_appends_witness:
  "length (violations (handleViolations context_full (replicate 101 (5, example_data)) defaultState)) = 100 \<and>
   index0 (violations (handleViolations context_full [(5, example_data), (7, example_data\<lparr>d_hostname := ''h2''\<rparr>)] defaultState))
     = Some \<lparr>v_agentId = ''A1'', v_processName = Some ''Steam.exe'', v_timestamp = 7, v_hostname = ''h2''\<rparr>"
  using violation_log_after_appends [of defaultState context_full "replicate 101 (5, example_data)"]
    violation_log_after_appends [of defaultState context_full
      "[(5, example_data), (7, example_data\<lparr>d_hostname := ''h2''\<rparr>)]"]
  by (simp add: defaultState_def makeViolation_def example_data_def)

section \<open>The create-policy call\<close>




section \<open>Settings\<close>

text \<open>
  C9. After update-settings with only \<^verbatim>\<open>checkInterval: 60000\<close>, whatever the agent
  service answers during the propagation, get-settings returns the check interval 60000
  and the kill-on-violation and notify-parent values from before the update.
\<close>

theorem updateSettings_getSettings_roundtrip:
  "getSettings (fst (snd (updateSettings svc
      \<lparr>patch_checkInterval = Some 60000, patch_killOnViolation = None, patch_notifyParent = None\<rparr>
      st))) =
   Inr \<lparr>checkInterval = 60000, killOnViolation = killOnViolation (settings st),
        notifyParent = notifyParent (settings st)\<rparr>"
  by (simp add: updateSettings_def getSettings_def mergeSettings_def Let_def
      split: sum.splits option.splits prod.splits)

section \<open>The parse cache\<close>

lemma parseFile_success_entry:
  assumes "parseFile vdf_parse fs path uc cache = (Inr d, cache', ops)"
      and "fs path = Some f"
  shows "cache' path = Some \<lparr>ce_data = d, ce_mtime = f_mtime f\<rparr>"
  using assms
  by (auto simp: parseFile_def readAndParse_def split: option.splits if_splits sum.splits)

text \<open>
  C7. After a successful parse of a path, a parse with \<^verbatim>\<open>useCache = true\<close> of the same
  path whose file has the same modification time returns the cached data after a single
  \<^verbatim>\<open>statSync\<close>, without reading or decoding, and leaves the cache as it is. When the
  modification time differs, the file is read and decoded again; a successful decoding is
  returned and replaces the cache entry, with the new modification time.
\<close>

theorem parseFile_cache:
  assumes "parseFile vdf_parse fs1 path uc cache0 = (Inr d, cache1, ops1)"
      and "fs1 path = Some f1"
      and "fs2 path = Some f2"
  shows "(f_mtime f2 = f_mtime f1 \<longrightarrow>
            parseFile vdf_parse fs2 path True cache1 = (Inr d, cache1, [StatSync path])) \<and>
         (f_mtime f2 \<noteq> f_mtime f1 \<longrightarrow>
            parseFile vdf_parse fs2 path True cache1 =
              (case vdf_parse (f_content f2) of
                 Inr d' \<Rightarrow>
                   (Inr d', cache1(path \<mapsto> \<lparr>ce_data = d', ce_mtime = f_mtime f2\<rparr>),
                    [StatSync path, ReadFileSync path, VdfParse (f_content f2), StatSync path])
               | Inl e \<Rightarrow>
                   (Inl e, cache1,
                    [StatSync path, ReadFileSync path, VdfParse (f_content f2),
                     ParserConsoleError ''[SteamVDFParser] Error parsing VDF file:''])))"
proof -
  have c1: "cache1 path = Some \<lparr>ce_data = d, ce_mtime = f_mtime f1\<rparr>"
    using assms(1,2) by (rule parseFile_success_entry)
  show ?thesis
    using c1 assms(3)
    by (simp add: parseFile_def readAndParse_def split: sum.splits)
qed

theorem parseFile_cache_witness:
  "parseFile example_vdf_parse (example_fs 100 ''changed'') ''/steam/localconfig.vdf'' True
     [''/steam/localconfig.vdf'' \<mapsto> \<lparr>ce_data = [''k v''], ce_mtime = 100\<rparr>]
   = (Inr [''k v''], [''/steam/localconfig.vdf'' \<mapsto> \<lparr>ce_data = [''k v''], ce_mtime = 100\<rparr>],
      [StatSync ''/steam/localconfig.vdf'']) \<and>
   parseFile example_vdf_parse (example_fs 101 ''changed'') ''/steam/localconfig.vdf'' True
     [''/steam/localconfig.vdf'' \<mapsto> \<lparr>ce_data = [''k v''], ce_mtime = 100\<rparr>]
   = (Inr [''changed''],
      [''/steam/localconfig.vdf'' \<mapsto> \<lparr>ce_data = [''changed''], ce_mtime = 101\<rparr>],
      [StatSync ''/steam/localconfig.vdf'', ReadFileSync ''/steam/localconfig.vdf'',
       VdfParse ''changed'', StatSync ''/steam/localconfig.vdf''])"
proof -
  have first: "parseFile example_vdf_parse (example_fs 100 ''k v'') ''/steam/localconfig.vdf'' True Map.empty
      = (Inr [''k v''], [''/steam/localconfig.vdf'' \<mapsto> \<lparr>ce_data = [''k v''], ce_mtime = 100\<rparr>],
         [ReadFileSync ''/steam/localconfig.vdf'', VdfParse ''k v'', StatSync ''/steam/localconfig.vdf''])"
    by (simp add: parseFile_def readAndParse_def example_vdf_parse_def example_fs_def)
  have f1: "example_fs 100 ''k v'' ''/steam/localconfig.vdf'' = Some \<lparr>f_content = ''k v'', f_mtime = 100\<rparr>"
    by (simp add: example_fs_def)
  have f2: "example_fs 100 ''changed'' ''/steam/localconfig.vdf'' = Some \<lparr>f_content = ''changed'', f_mtime = 100\<rparr>"
    by (simp add: example_fs_def)
  have f3: "example_fs 101 ''changed'' ''/steam/localconfig.vdf'' = Some \<lparr>f_content = ''changed'', f_mtime = 101\<rparr>"
    by (simp add: example_fs_def)
  show ?thesis
    using parseFile_cache [where ?fs1.0 = "example_fs 100 ''k v''" and ?fs2.0 = "example_fs 100 ''changed''"
          and path = "''/steam/localconfig.vdf''", OF first f1 f2]
      parseFile_cache [where ?fs1.0 = "example_fs 100 ''k v''" and ?fs2.0 = "example_fs 101 ''changed''"
          and path = "''/steam/localconfig.vdf''", OF first f1 f3]
    by (simp add: example_vdf_parse_def)
qed

section \<open>Linking and unlinking agents\<close>

lemma map_entry_twice:
  "(\<And>v. f (f v) = f v) \<Longrightarrow> AList.map_entry k f (AList.map_entry k f al) = AList.map_entry k f al"
  by (induction al) auto

lemma map_of_map_entry_same:
  "map_of (AList.map_entry k f al) k = map_option f (map_of al k)"
  by (induction al) auto



















text \<open>
  C8. Unlink-agent answers success on the first and on the second call, the second call
  leaves the state the first one left, and an existing entry of the agent ends with
  childId null and enabled false.
\<close>

theorem unlinkAgent_idempotent:
  "fst (unlinkAgent agentId st) = Inr \<lparr>success = True\<rparr> \<and>
   fst (unlinkAgent agentId (fst (snd (unlinkAgent agentId st)))) = Inr \<lparr>success = True\<rparr> \<and>
   fst (snd (unlinkAgent agentId (fst (snd (unlinkAgent agentId st))))) =
     fst (snd (unlinkAgent agentId st)) \<and>
   map_of (agents (fst (snd (unlinkAgent agentId st)))) agentId =
     map_option (\<lambda>e. e\<lparr>childId := None, enabled := Some False\<rparr>) (map_of (agents st) agentId)"
proof (cases "map_of (agents st) agentId")
  case None
  then show ?thesis by (simp add: unlinkAgent_def)
next
  case (Some e)
  then show ?thesis
    by (simp add: unlinkAgent_def Let_def map_of_map_entry_same map_entry_twice)
qed

section \<open>The violation listener\<close>

lemma startsWith_iff: "startsWith s p \<longleftrightarrow> (\<exists>post. s = p @ post)"
  by (induction s p rule: startsWith.induct) auto

lemma includes_str_iff: "includes_str s p \<longleftrightarrow> (\<exists>pre post. s = pre @ p @ post)"
proof (induction s)
  case Nil
  show ?case by auto
next
  case (Cons c cs)
  have "(\<exists>pre post. c # cs = pre @ p @ post) \<longleftrightarrow>
        (\<exists>post. c # cs = p @ post) \<or> (\<exists>pre post. cs = pre @ p @ post)"
    by (auto simp: Cons_eq_append_conv)
  then show ?case by (simp add: Cons.IH startsWith_iff)
qed

lemma toLowerCase_steam: "toLowerCase ''steam'' = ''steam''"
  by code_simp

lemma map_infix_iff:
  "(\<exists>pre post. map f n = pre @ p @ post) \<longleftrightarrow>
   (\<exists>pre mid post. n = pre @ mid @ post \<and> map f mid = p)"
proof
  assume "\<exists>pre post. map f n = pre @ p @ post"
  then obtain pre post where "map f n = pre @ (p @ post)" by auto
  then have "\<exists>us vs. n = us @ vs \<and> pre = map f us \<and> p @ post = map f vs"
    by (simp only: map_eq_append_conv)
  then obtain us vs where n: "n = us @ vs" and vs: "map f vs = p @ post" by auto
  from vs have "\<exists>ws xs. vs = ws @ xs \<and> p = map f ws \<and> post = map f xs"
    by (simp only: map_eq_append_conv)
  then obtain ws xs where "vs = ws @ xs" and "map f ws = p" by auto
  with n show "\<exists>pre mid post. n = pre @ mid @ post \<and> map f mid = p" by blast
next
  assume "\<exists>pre mid post. n = pre @ mid @ post \<and> map f mid = p"
  then obtain pre mid post where "n = pre @ mid @ post" and "map f mid = p" by auto
  then have "map f n = map f pre @ p @ map f post" by simp
  then show "\<exists>pre post. map f n = pre @ p @ post" by blast
qed

lemma steam_filter_iff:
  "includes_str (toLowerCase n) ''steam'' \<longleftrightarrow> containsIgnoringCase n ''steam''"
  unfolding includes_str_iff containsIgnoringCase_def toLowerCase_steam
  unfolding toLowerCase_def by (rule map_infix_iff)

lemma steam_exe_matches: "includes_str (toLowerCase ''Steam.exe'') ''steam''"
  by code_simp

lemma handleViolation_state:
  "fst (handleViolation ctx now d st) =
     st\<lparr>violations := take 100 (makeViolation now d # violations st)\<rparr>"
  by (simp add: handleViolation_def Let_def slice0_def)

lemma handleViolation_calls:
  "snd (handleViolation ctx now d st) =
     (if notifyParent (settings st) \<and> has_sendToRenderer ctx
      then [SendToRenderer ''steamViolation'' (makeViolation now d)] else []) @
     (if has_logActivity ctx
      then [LogActivity
              \<lparr>act_type = ''steam_blocked'', act_message = ''Steam was blocked on '' @ d_hostname d,
               act_timestamp = v_timestamp (makeViolation now d), act_severity = ''warning''\<rparr>]
      else []) @
     [ConfigurationUpdate (st\<lparr>violations := take 100 (makeViolation now d # violations st)\<rparr>)]"
  by (simp add: handleViolation_def Let_def slice0_def)

lemma truncateNumber_ge_1: "1 \<le> q \<Longrightarrow> truncateNumber q = \<lfloor>q\<rfloor> \<and> 1 \<le> \<lfloor>q\<rfloor>"
  by (simp add: truncateNumber_def le_floor_iff)

text \<open>
  C4, as the code has it. A violation event is handled if and only if its process name is
  present and contains \<^verbatim>\<open>steam\<close> in any letter case; otherwise the state is unchanged
  and no call is made. Handling it changes the state in one place, the log, which gets
  the new record in front and is cut to 100. Its calls are, in this order: exactly one
  \<^verbatim>\<open>steamViolation\<close> notification when notify-parent is true and the host context has
  \<^verbatim>\<open>sendToRenderer\<close> (none otherwise), one activity entry when the host context has
  \<^verbatim>\<open>logActivity\<close>, and one \<^verbatim>\<open>configurationUpdate\<close> that persists the new state.
  Get-violations with an absent limit, with a numeric limit of 1 or more (fractional ones
  included) or with an infinite limit then returns a list with that record at index 0.
\<close>

theorem on_violation_processing:
  "on_violation ctx now d st =
     (if (case d_processName d of None \<Rightarrow> False | Some n \<Rightarrow> containsIgnoringCase n ''steam'')
      then handleViolation ctx now d st else (st, [])) \<and>
   fst (handleViolation ctx now d st) =
     st\<lparr>violations := take 100 (makeViolation now d # violations st)\<rparr> \<and>
   snd (handleViolation ctx now d st) =
     (if notifyParent (settings st) \<and> has_sendToRenderer ctx
      then [SendToRenderer ''steamViolation'' (makeViolation now d)] else []) @
     (if has_logActivity ctx
      then [LogActivity
              \<lparr>act_type = ''steam_blocked'', act_message = ''Steam was blocked on '' @ d_hostname d,
               act_timestamp = v_timestamp (makeViolation now d), act_severity = ''warning''\<rparr>]
      else []) @
     [ConfigurationUpdate (st\<lparr>violations := take 100 (makeViolation now d # violations st)\<rparr>)] \<and>
   violations (fst (handleViolation ctx now d st)) =
     take 100 (makeViolation now d # violations st) \<and>
   forwarded (snd (handleViolation ctx now d st)) =
     (if notifyParent (settings st) \<and> has_sendToRenderer ctx
      then [(''steamViolation'', makeViolation now d)] else []) \<and>
   activities (snd (handleViolation ctx now d st)) =
     (if has_logActivity ctx
      then [\<lparr>act_type = ''steam_blocked'', act_message = ''Steam was blocked on '' @ d_hostname d,
             act_timestamp = v_timestamp (makeViolation now d), act_severity = ''warning''\<rparr>]
      else []) \<and>
   getViolations LimitAbsent (fst (handleViolation ctx now d st)) =
     Inr (makeViolation now d # take 49 (violations st)) \<and>
   (1 \<le> q \<longrightarrow>
      getViolations (LimitNumber (Num q)) (fst (handleViolation ctx now d st)) =
        Inr (makeViolation now d # take (min 99 (nat \<lfloor>q\<rfloor> - 1)) (violations st))) \<and>
   getViolations (LimitNumber PosInfinity) (fst (handleViolation ctx now d st)) =
     Inr (makeViolation now d # take 99 (violations st))"
proof -
  have filter: "on_violation ctx now d st =
     (if (case d_processName d of None \<Rightarrow> False | Some n \<Rightarrow> containsIgnoringCase n ''steam'')
      then handleViolation ctx now d st else (st, []))"
    by (cases "d_processName d") (simp_all add: on_violation_def steam_filter_iff)
  note st = handleViolation_state [of ctx now d st]
  note calls = handleViolation_calls [of ctx now d st]
  have fw: "forwarded (snd (handleViolation ctx now d st)) =
     (if notifyParent (settings st) \<and> has_sendToRenderer ctx
      then [(''steamViolation'', makeViolation now d)] else [])"
    unfolding calls by simp
  have act: "activities (snd (handleViolation ctx now d st)) =
     (if has_logActivity ctx
      then [\<lparr>act_type = ''steam_blocked'', act_message = ''Steam was blocked on '' @ d_hostname d,
             act_timestamp = v_timestamp (makeViolation now d), act_severity = ''warning''\<rparr>]
      else [])"
    unfolding calls by simp
  have gv: "getViolations LimitAbsent (fst (handleViolation ctx now d st)) =
     Inr (makeViolation now d # take 49 (violations st))"
    by (simp add: getViolations_def slice0_def handleViolation_violations)
  have gl: "getViolations (LimitNumber (Num q)) (fst (handleViolation ctx now d st)) =
        Inr (makeViolation now d # take (min 99 (nat \<lfloor>q\<rfloor> - 1)) (violations st))" if "1 \<le> q"
  proof -
    from truncateNumber_ge_1 [OF that]
    have t: "truncateNumber q = \<lfloor>q\<rfloor>" and p: "1 \<le> \<lfloor>q\<rfloor>" by simp_all
    from p obtain k where k: "nat \<lfloor>q\<rfloor> = Suc k" by (cases "nat \<lfloor>q\<rfloor>") auto
    show ?thesis
      using p
      by (simp add: getViolations_def sliceNumber_def slice0_def t handleViolation_violations
          k min_def)
  qed
  have gi: "getViolations (LimitNumber PosInfinity) (fst (handleViolation ctx now d st)) =
     Inr (makeViolation now d # take 99 (violations st))"
    by (simp add: getViolations_def sliceNumber_def handleViolation_violations)
  from filter st calls handleViolation_violations fw act gv gl gi show ?thesis by blast
qed

theorem on_violation_processing_witness:
  "(1::rat) \<le> 5 / 2 \<and>
   forwarded (snd (on_violation context_full 1000 example_data defaultState)) =
     [(''steamViolation'', example_violation)] \<and>
   snd (on_violation context_full 1000 example_data defaultState) =
     [SendToRenderer ''steamViolation'' example_violation,
      LogActivity \<lparr>act_type = ''steam_blocked'', act_message = ''Steam was blocked on h1'',
                   act_timestamp = 1000, act_severity = ''warning''\<rparr>,
      ConfigurationUpdate (defaultState\<lparr>violations := [example_violation]\<rparr>)] \<and>
   getViolations (LimitNumber (Num (5 / 2)))
     (fst (on_violation context_full 1000 example_data defaultState)) = Inr [example_violation]"
proof -
  have c: "containsIgnoringCase ''Steam.exe'' ''steam''"
    using steam_exe_matches by (simp only: steam_filter_iff)
  have q: "(1::rat) \<le> 5 / 2" by simp
  note inst = on_violation_processing [of context_full 1000 example_data defaultState "5 / 2"]
  have on: "on_violation context_full 1000 example_data defaultState =
              handleViolation context_full 1000 example_data defaultState"
    using inst [THEN conjunct1] c by (simp add: example_data_def)
  have calls: "snd (handleViolation context_full 1000 example_data defaultState) =
     [SendToRenderer ''steamViolation'' example_violation,
      LogActivity \<lparr>act_type = ''steam_blocked'', act_message = ''Steam was blocked on h1'',
                   act_timestamp = 1000, act_severity = ''warning''\<rparr>,
      ConfigurationUpdate (defaultState\<lparr>violations := [example_violation]\<rparr>)]"
    using inst [THEN conjunct2, THEN conjunct2, THEN conjunct1]
    by (simp add: example_data_def defaultState_def context_full_def makeViolation_def
        example_violation_def)
  have fw: "forwarded (snd (handleViolation context_full 1000 example_data defaultState)) =
     [(''steamViolation'', example_violation)]"
    using inst [THEN conjunct2, THEN conjunct2, THEN conjunct2, THEN conjunct2, THEN conjunct1]
    by (simp add: example_data_def defaultState_def context_full_def makeViolation_def
        example_violation_def)
  have gl: "getViolations (LimitNumber (Num (5 / 2)))
     (fst (handleViolation context_full 1000 example_data defaultState)) = Inr [example_violation]"
    using inst [THEN conjunct2, THEN conjunct2, THEN conjunct2, THEN conjunct2, THEN conjunct2,
                THEN conjunct2, THEN conjunct2, THEN conjunct1] q
    by (simp add: example_data_def defaultState_def makeViolation_def example_violation_def)
  from q fw calls gl show ?thesis unfolding on by blast
qed

text \<open>
  C4 fails at a host context without \<^verbatim>\<open>sendToRenderer\<close> and \<^verbatim>\<open>logActivity\<close>: with
  notify-parent true, the event \<^verbatim>\<open>{agentId: 'A1', processName: 'Steam.exe', hostname: 'h1'}\<close>
  is put into the log but nothing is forwarded and no activity is logged. And
  get-violations with the limits 0, 1/2 or \<^verbatim>\<open>null\<close> returns the empty list.
\<close>

theorem on_violation_counterexample:
  "notifyParent (settings defaultState) \<and>
   violations (fst (on_violation context_bare 1000 example_data defaultState)) = [example_violation] \<and>
   forwarded (snd (on_violation context_bare 1000 example_data defaultState)) = [] \<and>
   activities (snd (on_violation context_bare 1000 example_data defaultState)) = [] \<and>
   getViolations (LimitNumber (Num 0))
     (fst (on_violation context_full 1000 example_data defaultState)) = Inr [] \<and>
   getViolations (LimitNumber (Num (1 / 2)))
     (fst (on_violation context_full 1000 example_data defaultState)) = Inr [] \<and>
   getViolations LimitNull
     (fst (on_violation context_full 1000 example_data defaultState)) = Inr []"
proof -
  have m: "includes_str (toLowerCase ''Steam.exe'') ''steam''"
    by (rule steam_exe_matches)
  show ?thesis
    using m
    by (simp add: on_violation_def handleViolation_def Let_def example_data_def defaultState_def
        context_bare_def context_full_def makeViolation_def example_violation_def
        getViolations_def sliceNumber_def truncateNumber_def slice0_def)
qed

section \<open>The state-change listener\<close>

lemma updateCalls_append: "updateCalls (xs @ ys) = updateCalls xs @ updateCalls ys"
  by (induction xs rule: updateCalls.induct) auto

lemma allowedPayload_cong:
  "policies st' = policies st \<Longrightarrow> allowedPayload st' i v = allowedPayload st i v"
  by (simp add: allowedPayload_def policyProcessName_def)

lemma updateSteamPolicy_policies:
  "policies (fst (updateSteamPolicy svc now a ns st)) = policies st"
  by (simp add: updateSteamPolicy_def Let_def split: option.splits)

lemma updateSteamPolicy_calls:
  "updateCalls (snd (updateSteamPolicy svc now a ns st)) =
     [(agent_id a, allowedPayload st (agent_id a) (steamAllowed ns))]"
  by (simp add: updateSteamPolicy_def Let_def split: option.splits)

lemma updateSteamPolicy_lookup:
  "map_of (agents (fst (updateSteamPolicy svc now a ns st))) k =
     (if k = agent_id a \<and>
         updatePolicy svc (agent_id a) (allowedPayload st (agent_id a) (steamAllowed ns)) = None
      then map_option (\<lambda>e. e\<lparr>entry_allowed := Some (steamAllowed ns), lastUpdate := Some now\<rparr>)
             (map_of (agents st) k)
      else map_of (agents st) k)"
  by (simp add: updateSteamPolicy_def Let_def update_conv' split: option.splits)

lemma updateLinkedAgent_policies:
  "policies (fst (updateLinkedAgent svc now ns ad st)) = policies st"
  by (simp add: updateLinkedAgent_def updateSteamPolicy_policies
      split: sum.splits option.splits prod.splits)
     (metis fst_conv updateSteamPolicy_policies)

lemma updateLinkedAgent_calls:
  "updateCalls (snd (updateLinkedAgent svc now ns ad st)) = updateCallsFor svc st ns ad"
  using updateSteamPolicy_calls
  by (simp add: updateLinkedAgent_def updateCallsFor_def
      split: sum.splits option.splits prod.splits)
     (metis snd_conv)

lemma updateCallsFor_cong:
  assumes "policies st' = policies st"
  shows "updateCallsFor svc st' ns ad = updateCallsFor svc st ns ad"
proof -
  have e: "allowedPayload st' = allowedPayload st"
    by (rule ext)+ (simp add: allowedPayload_def policyProcessName_def assms)
  show ?thesis unfolding updateCallsFor_def e by (rule refl)
qed

lemma updateLinkedAgent_lookup:
  "map_of (agents (fst (updateLinkedAgent svc now ns ad st))) k =
     (case getAgent svc (entry_id ad) of
        Inr (Some a) \<Rightarrow> map_of (agents (fst (updateSteamPolicy svc now a ns st))) k
      | _ \<Rightarrow> map_of (agents st) k)"
  by (simp add: updateLinkedAgent_def split: sum.splits option.splits prod.splits)

lemma updateLinkedAgent_present:
  "map_of (agents (fst (updateLinkedAgent svc now ns ad st))) k = None \<longleftrightarrow>
   map_of (agents st) k = None"
  by (simp add: updateLinkedAgent_lookup updateSteamPolicy_lookup split: sum.splits option.splits)

lemma updateSteamPolicy_keeps:
  assumes "map_of (agents st) k = Some y" and "entry_allowed y = Some (steamAllowed ns)"
  shows "\<exists>z. map_of (agents (fst (updateSteamPolicy svc now a ns st))) k = Some z \<and>
             entry_allowed z = Some (steamAllowed ns)"
  using assms by (cases "k = agent_id a") (simp_all add: updateSteamPolicy_lookup)

lemma updateLinkedAgent_keeps:
  assumes "map_of (agents st) k = Some y" and "entry_allowed y = Some (steamAllowed ns)"
  shows "\<exists>z. map_of (agents (fst (updateLinkedAgent svc now ns ad st))) k = Some z \<and>
             entry_allowed z = Some (steamAllowed ns)"
proof (cases "getAgent svc (entry_id ad)")
  case (Inl e)
  with assms show ?thesis by (simp add: updateLinkedAgent_lookup)
next
  case (Inr r)
  show ?thesis
  proof (cases r)
    case None
    with Inr assms show ?thesis by (simp add: updateLinkedAgent_lookup)
  next
    case (Some a)
    have "map_of (agents (fst (updateLinkedAgent svc now ns ad st))) k =
          map_of (agents (fst (updateSteamPolicy svc now a ns st))) k"
      using Inr Some by (simp add: updateLinkedAgent_lookup)
    then show ?thesis
      using updateSteamPolicy_keeps [OF assms] by simp
  qed
qed

lemma updateLinkedAgent_sets:
  assumes "getAgent svc (entry_id ad) = Inr (Some a)"
      and "updatePolicy svc (agent_id a) (allowedPayload st (agent_id a) (steamAllowed ns)) = None"
      and "map_of (agents st) (agent_id a) = Some x"
  shows "\<exists>z. map_of (agents (fst (updateLinkedAgent svc now ns ad st))) (agent_id a) = Some z \<and>
             entry_allowed z = Some (steamAllowed ns)"
  using assms by (simp add: updateLinkedAgent_lookup updateSteamPolicy_lookup)

lemma updateLinked_Cons:
  "updateLinked svc now ns (ad # ads) st =
     (fst (updateLinked svc now ns ads (fst (updateLinkedAgent svc now ns ad st))),
      snd (updateLinkedAgent svc now ns ad st) @
      snd (updateLinked svc now ns ads (fst (updateLinkedAgent svc now ns ad st))))"
  by (simp split: prod.splits)

lemma updateLinked_policies:
  "policies (fst (updateLinked svc now ns ads st)) = policies st"
proof (induction ads arbitrary: st)
  case Nil
  show ?case by simp
next
  case (Cons ad ads)
  show ?case
    by (simp only: updateLinked_Cons fst_conv Cons.IH updateLinkedAgent_policies)
qed

lemma updateLinked_calls:
  "updateCalls (snd (updateLinked svc now ns ads st)) =
     concat (map (updateCallsFor svc st ns) ads)"
proof (induction ads arbitrary: st)
  case Nil
  show ?case by simp
next
  case (Cons ad ads)
  have "updateCalls (snd (updateLinked svc now ns ads (fst (updateLinkedAgent svc now ns ad st)))) =
        concat (map (updateCallsFor svc st ns) ads)"
  proof -
    have pol: "policies (fst (updateLinkedAgent svc now ns ad st)) = policies st"
      by (rule updateLinkedAgent_policies)
    have "updateCallsFor svc (fst (updateLinkedAgent svc now ns ad st)) ns =
          updateCallsFor svc st ns"
      by (rule ext) (rule updateCallsFor_cong [OF pol])
    then show ?thesis by (simp add: Cons.IH)
  qed
  then show ?case
    by (simp only: updateLinked_Cons snd_conv updateCalls_append updateLinkedAgent_calls)
       simp
qed

lemma updateLinked_present:
  "map_of (agents (fst (updateLinked svc now ns ads st))) k = None \<longleftrightarrow>
   map_of (agents st) k = None"
proof (induction ads arbitrary: st)
  case Nil
  show ?case by simp
next
  case (Cons ad ads)
  show ?case
    by (simp only: updateLinked_Cons fst_conv Cons.IH updateLinkedAgent_present)
qed

lemma updateLinked_keeps:
  assumes "map_of (agents st) k = Some y" and "entry_allowed y = Some (steamAllowed ns)"
  shows "\<exists>z. map_of (agents (fst (updateLinked svc now ns ads st))) k = Some z \<and>
             entry_allowed z = Some (steamAllowed ns)"
  using assms
proof (induction ads arbitrary: st y)
  case Nil
  then show ?case by simp
next
  case (Cons ad ads)
  from updateLinkedAgent_keeps [OF Cons.prems]
  obtain z where "map_of (agents (fst (updateLinkedAgent svc now ns ad st))) k = Some z"
    and "entry_allowed z = Some (steamAllowed ns)" by blast
  then show ?case
    by (simp only: updateLinked_Cons fst_conv) (rule Cons.IH)
qed

lemma updateLinked_sets:
  assumes "ad \<in> set ads"
      and "getAgent svc (entry_id ad) = Inr (Some a)"
      and "updatePolicy svc (agent_id a) (allowedPayload st (agent_id a) (steamAllowed ns)) = None"
      and "map_of (agents st) (agent_id a) = Some x"
  shows "\<exists>z. map_of (agents (fst (updateLinked svc now ns ads st))) (agent_id a) = Some z \<and>
             entry_allowed z = Some (steamAllowed ns)"
  using assms
proof (induction ads arbitrary: st x)
  case Nil
  then show ?case by simp
next
  case (Cons b ads)
  let ?st1 = "fst (updateLinkedAgent svc now ns b st)"
  show ?case
  proof (cases "ad = b")
    case True
    from updateLinkedAgent_sets [OF Cons.prems(2,3,4)]
    obtain z where "map_of (agents (fst (updateLinkedAgent svc now ns ad st))) (agent_id a) = Some z"
      and "entry_allowed z = Some (steamAllowed ns)" by blast
    then show ?thesis
      unfolding True by (simp only: updateLinked_Cons fst_conv) (rule updateLinked_keeps)
  next
    case False
    with Cons.prems(1) have m: "ad \<in> set ads" by simp
    have p: "updatePolicy svc (agent_id a) (allowedPayload ?st1 (agent_id a) (steamAllowed ns)) = None"
      using Cons.prems(3) by (simp add: allowedPayload_cong [OF updateLinkedAgent_policies])
    from Cons.prems(4) obtain x1 where x1: "map_of (agents ?st1) (agent_id a) = Some x1"
      using updateLinkedAgent_present [of svc now ns b st "agent_id a"] by auto
    show ?thesis
      by (simp only: updateLinked_Cons fst_conv) (rule Cons.IH [OF m Cons.prems(2) p x1])
  qed
qed

lemma update_present_keys:
  "map_of al k = Some e \<Longrightarrow> map fst (AList.update k v al) = map fst al"
  by (induction al) (auto split: if_splits)

lemma updateSteamPolicy_rest:
  "fst (updateSteamPolicy svc now a ns st) =
     st\<lparr>agents := agents (fst (updateSteamPolicy svc now a ns st))\<rparr> \<and>
   map fst (agents (fst (updateSteamPolicy svc now a ns st))) = map fst (agents st)"
  by (simp add: updateSteamPolicy_def Let_def update_present_keys split: option.splits)

lemma updateLinkedAgent_rest:
  "fst (updateLinkedAgent svc now ns ad st) =
     st\<lparr>agents := agents (fst (updateLinkedAgent svc now ns ad st))\<rparr> \<and>
   map fst (agents (fst (updateLinkedAgent svc now ns ad st))) = map fst (agents st)"
proof (cases "getAgent svc (entry_id ad)")
  case (Inl e)
  then show ?thesis by (simp add: updateLinkedAgent_def)
next
  case (Inr r)
  show ?thesis
  proof (cases r)
    case None
    with Inr show ?thesis by (simp add: updateLinkedAgent_def)
  next
    case (Some a)
    have "fst (updateLinkedAgent svc now ns ad st) = fst (updateSteamPolicy svc now a ns st)"
      using Inr Some by (simp add: updateLinkedAgent_def split: prod.splits)
    then show ?thesis
      using updateSteamPolicy_rest [of svc now a ns st] by simp
  qed
qed

lemma updateLinked_rest:
  "fst (updateLinked svc now ns ads st) =
     st\<lparr>agents := agents (fst (updateLinked svc now ns ads st))\<rparr> \<and>
   map fst (agents (fst (updateLinked svc now ns ads st))) = map fst (agents st)"
proof (induction ads arbitrary: st)
  case Nil
  show ?case by simp
next
  case (Cons ad ads)
  let ?st1 = "fst (updateLinkedAgent svc now ns ad st)"
  let ?st2 = "fst (updateLinked svc now ns ads ?st1)"
  from updateLinkedAgent_rest [of svc now ns ad st]
  have 1: "?st1 = st\<lparr>agents := agents ?st1\<rparr>" and k1: "map fst (agents ?st1) = map fst (agents st)"
    by simp_all
  from Cons.IH [of ?st1]
  have 2: "?st2 = ?st1\<lparr>agents := agents ?st2\<rparr>" and k2: "map fst (agents ?st2) = map fst (agents ?st1)"
    by simp_all
  have "?st2 = st\<lparr>agents := agents ?st2\<rparr>"
    by (subst 2, subst 1) simp
  with k1 k2 show ?case
    by (simp only: updateLinked_Cons fst_conv)
qed

lemma recordsAllowed_cong:
  assumes "policies st' = policies st"
  shows "recordsAllowed svc st' ns ads k = recordsAllowed svc st ns ads k"
proof -
  have e: "allowedPayload st' = allowedPayload st"
    by (rule ext)+ (simp add: allowedPayload_def policyProcessName_def assms)
  show ?thesis unfolding recordsAllowed_def e by (rule refl)
qed

lemma recordsAllowed_Cons:
  "recordsAllowed svc st ns (ad # ads) k \<longleftrightarrow>
     (case getAgent svc (entry_id ad) of
        Inr (Some a) \<Rightarrow>
          agent_id a = k \<and> updatePolicy svc k (allowedPayload st k (steamAllowed ns)) = None
      | _ \<Rightarrow> False) \<or>
     recordsAllowed svc st ns ads k"
  by (simp add: recordsAllowed_def)

lemma updateLinkedAgent_lookup_records:
  "map_of (agents (fst (updateLinkedAgent svc now ns ad st))) k =
     (if recordsAllowed svc st ns [ad] k
      then map_option (\<lambda>e. e\<lparr>entry_allowed := Some (steamAllowed ns), lastUpdate := Some now\<rparr>)
             (map_of (agents st) k)
      else map_of (agents st) k)"
proof (cases "getAgent svc (entry_id ad)")
  case (Inl e)
  then show ?thesis by (simp add: updateLinkedAgent_lookup recordsAllowed_def)
next
  case (Inr r)
  show ?thesis
  proof (cases r)
    case None
    with Inr show ?thesis by (simp add: updateLinkedAgent_lookup recordsAllowed_def)
  next
    case (Some a)
    with Inr show ?thesis
      by (auto simp: updateLinkedAgent_lookup recordsAllowed_def updateSteamPolicy_lookup)
  qed
qed

lemma updateLinked_lookup:
  "map_of (agents (fst (updateLinked svc now ns ads st))) k =
     (if recordsAllowed svc st ns ads k
      then map_option (\<lambda>e. e\<lparr>entry_allowed := Some (steamAllowed ns), lastUpdate := Some now\<rparr>)
             (map_of (agents st) k)
      else map_of (agents st) k)"
proof (induction ads arbitrary: st)
  case Nil
  show ?case by (simp add: recordsAllowed_def)
next
  case (Cons ad ads)
  let ?st1 = "fst (updateLinkedAgent svc now ns ad st)"
  let ?upd = "\<lambda>e. e\<lparr>entry_allowed := Some (steamAllowed ns), lastUpdate := Some now\<rparr>"
  have pol: "policies ?st1 = policies st" by (rule updateLinkedAgent_policies)
  have tl: "recordsAllowed svc ?st1 ns ads k = recordsAllowed svc st ns ads k"
    by (rule recordsAllowed_cong [OF pol])
  have hd: "map_of (agents ?st1) k =
     (if recordsAllowed svc st ns [ad] k then map_option ?upd (map_of (agents st) k)
      else map_of (agents st) k)"
    by (rule updateLinkedAgent_lookup_records)
  have split: "recordsAllowed svc st ns (ad # ads) k \<longleftrightarrow>
     recordsAllowed svc st ns [ad] k \<or> recordsAllowed svc st ns ads k"
    by (simp add: recordsAllowed_def)
  have idem: "map_option ?upd (map_option ?upd x) = map_option ?upd x" for x
    by (cases x) simp_all
  have "map_of (agents (fst (updateLinked svc now ns ads ?st1))) k =
     (if recordsAllowed svc st ns ads k then map_option ?upd (map_of (agents ?st1) k)
      else map_of (agents ?st1) k)"
    unfolding Cons.IH [of ?st1] tl by (rule refl)
  then show ?case
    unfolding updateLinked_Cons fst_conv hd split by (simp add: idem)
qed

lemma updateCallsFor_allowed:
  "(i, p) \<in> set (updateCallsFor svc st ns ad) \<Longrightarrow> up_allowed p = Some (steamAllowed ns)"
  by (auto simp: updateCallsFor_def allowedPayload_def split: sum.splits option.splits)

lemma steamAllowed_iff:
  "steamAllowed ns \<longleftrightarrow> \<not> paused ns \<and> (\<exists>q. quota ns = Some q \<and> 0 < q)"
  by (cases "quota ns") (simp_all add: steamAllowed_def)

lemma recordsAllowed_rejected:
  "updatePolicy svc k (allowedPayload st k (steamAllowed ns)) \<noteq> None \<Longrightarrow>
   \<not> recordsAllowed svc st ns ads k"
  by (induction ads) (auto simp: recordsAllowed_def split: sum.splits option.splits)

text \<open>
  C1, as the code has it. On a state-change event for a subject, the listener goes through
  the entries of \<^verbatim>\<open>state.agents\<close> linked to that subject in order, and for each one
  whose \<^verbatim>\<open>getAgent\<close> call returns an agent it issues one update-policy call for the
  returned agent's id; no other update-policy call is issued. The allowed flag of every
  such call is \<open>steamAllowed\<close>, which is true exactly when the update has paused = false
  and a quota strictly above 0. When that call resolves and the returned id has an entry in
  \<^verbatim>\<open>state.agents\<close>, the entry records the same allowed value at the end; when the call
  is rejected, the entry under that id is left as it was. Altogether the listener changes
  nothing in the state but the allowed value and the update time of the entries under the
  ids whose call resolved.
\<close>

theorem on_stateChange_updates:
  "updateCalls (snd (on_stateChange svc now cid ns st)) =
     concat (map (updateCallsFor svc st ns)
               (filter (\<lambda>e. childId e = Some cid) (map snd (agents st)))) \<and>
   (steamAllowed ns \<longleftrightarrow> \<not> paused ns \<and> (\<exists>q. quota ns = Some q \<and> 0 < q)) \<and>
   (\<forall>c \<in> set (updateCalls (snd (on_stateChange svc now cid ns st))).
      up_allowed (snd c) = Some (steamAllowed ns)) \<and>
   (\<forall>ad \<in> set (map snd (agents st)). childId ad = Some cid \<longrightarrow>
      (\<forall>a. getAgent svc (entry_id ad) = Inr (Some a) \<longrightarrow>
         (agent_id a, allowedPayload st (agent_id a) (steamAllowed ns))
           \<in> set (updateCalls (snd (on_stateChange svc now cid ns st))) \<and>
         (updatePolicy svc (agent_id a) (allowedPayload st (agent_id a) (steamAllowed ns)) = None \<longrightarrow>
          map_of (agents st) (agent_id a) \<noteq> None \<longrightarrow>
            (\<exists>z. map_of (agents (fst (on_stateChange svc now cid ns st))) (agent_id a) = Some z \<and>
                 entry_allowed z = Some (steamAllowed ns))) \<and>
         (updatePolicy svc (agent_id a) (allowedPayload st (agent_id a) (steamAllowed ns)) \<noteq> None \<longrightarrow>
            map_of (agents (fst (on_stateChange svc now cid ns st))) (agent_id a) =
              map_of (agents st) (agent_id a)))) \<and>
   map_of (agents (fst (on_stateChange svc now cid ns st))) k =
     (if recordsAllowed svc st ns (filter (\<lambda>e. childId e = Some cid) (map snd (agents st))) k
      then map_option (\<lambda>e. e\<lparr>entry_allowed := Some (steamAllowed ns), lastUpdate := Some now\<rparr>)
             (map_of (agents st) k)
      else map_of (agents st) k) \<and>
   map fst (agents (fst (on_stateChange svc now cid ns st))) = map fst (agents st) \<and>
   fst (on_stateChange svc now cid ns st) =
     st\<lparr>agents := agents (fst (on_stateChange svc now cid ns st))\<rparr>"
proof -
  let ?linked = "filter (\<lambda>e. childId e = Some cid) (map snd (agents st))"
  have calls: "updateCalls (snd (on_stateChange svc now cid ns st)) =
     concat (map (updateCallsFor svc st ns) ?linked)"
    by (simp only: on_stateChange_def updateLinked_calls)
  have flag: "up_allowed (snd c) = Some (steamAllowed ns)"
    if "c \<in> set (updateCalls (snd (on_stateChange svc now cid ns st)))" for c
  proof -
    from that obtain ad where "c \<in> set (updateCallsFor svc st ns ad)"
      unfolding calls by auto
    then show ?thesis
      using updateCallsFor_allowed [of "fst c" "snd c" svc st ns ad] by simp
  qed
  have lookup: "map_of (agents (fst (on_stateChange svc now cid ns st))) k =
     (if recordsAllowed svc st ns ?linked k
      then map_option (\<lambda>e. e\<lparr>entry_allowed := Some (steamAllowed ns), lastUpdate := Some now\<rparr>)
             (map_of (agents st) k)
      else map_of (agents st) k)" for k
    unfolding on_stateChange_def by (rule updateLinked_lookup)
  have rest: "map fst (agents (fst (on_stateChange svc now cid ns st))) = map fst (agents st) \<and>
     fst (on_stateChange svc now cid ns st) =
       st\<lparr>agents := agents (fst (on_stateChange svc now cid ns st))\<rparr>"
    unfolding on_stateChange_def using updateLinked_rest [of svc now ns ?linked st] by blast
  have each: "(agent_id a, allowedPayload st (agent_id a) (steamAllowed ns))
           \<in> set (updateCalls (snd (on_stateChange svc now cid ns st))) \<and>
         (updatePolicy svc (agent_id a) (allowedPayload st (agent_id a) (steamAllowed ns)) = None \<longrightarrow>
          map_of (agents st) (agent_id a) \<noteq> None \<longrightarrow>
            (\<exists>z. map_of (agents (fst (on_stateChange svc now cid ns st))) (agent_id a) = Some z \<and>
                 entry_allowed z = Some (steamAllowed ns))) \<and>
         (updatePolicy svc (agent_id a) (allowedPayload st (agent_id a) (steamAllowed ns)) \<noteq> None \<longrightarrow>
            map_of (agents (fst (on_stateChange svc now cid ns st))) (agent_id a) =
              map_of (agents st) (agent_id a))"
    if ad: "ad \<in> set (map snd (agents st))" and c: "childId ad = Some cid"
      and g: "getAgent svc (entry_id ad) = Inr (Some a)" for ad a
  proof -
    from ad c have m: "ad \<in> set ?linked" by simp
    have "(agent_id a, allowedPayload st (agent_id a) (steamAllowed ns))
            \<in> set (updateCallsFor svc st ns ad)"
      using g by (simp add: updateCallsFor_def)
    with m have issued: "(agent_id a, allowedPayload st (agent_id a) (steamAllowed ns))
           \<in> set (updateCalls (snd (on_stateChange svc now cid ns st)))"
      unfolding calls by auto
    have stored: "\<exists>z. map_of (agents (fst (on_stateChange svc now cid ns st))) (agent_id a) = Some z \<and>
                 entry_allowed z = Some (steamAllowed ns)"
      if u: "updatePolicy svc (agent_id a) (allowedPayload st (agent_id a) (steamAllowed ns)) = None"
        and k: "map_of (agents st) (agent_id a) \<noteq> None"
    proof -
      from k obtain x where x: "map_of (agents st) (agent_id a) = Some x" by auto
      show ?thesis
        unfolding on_stateChange_def by (rule updateLinked_sets [OF m g u x])
    qed
    have kept: "map_of (agents (fst (on_stateChange svc now cid ns st))) (agent_id a) =
              map_of (agents st) (agent_id a)"
      if "updatePolicy svc (agent_id a) (allowedPayload st (agent_id a) (steamAllowed ns)) \<noteq> None"
      unfolding lookup using recordsAllowed_rejected [OF that] by simp
    from issued stored kept show ?thesis by blast
  qed
  from calls steamAllowed_iff flag each lookup rest show ?thesis by blast
qed

lemmas example_eval =
  on_stateChange_def updateLinkedAgent_def updateSteamPolicy_def allowedPayload_def
  policyProcessName_def steamAllowed_def example_state_def example_allow2State_def
  example_agent_def service_ok_def freshEntry_def Let_def

theorem on_stateChange_updates_witness:
  "updateCalls (snd (on_stateChange service_ok 1000 ''S1'' example_allow2State example_state)) =
     [(''A1'', \<lparr>up_processName = Some ''Steam.exe'', up_allowed = Some True,
               up_checkInterval = None, up_enabled = None\<rparr>),
      (''A2'', \<lparr>up_processName = Some ''steam'', up_allowed = Some True,
               up_checkInterval = None, up_enabled = None\<rparr>)] \<and>
   (\<exists>z. map_of (agents (fst (on_stateChange service_ok 1000 ''S1'' example_allow2State example_state)))
          ''A1'' = Some z \<and> entry_allowed z = Some True) \<and>
   map_of (agents (fst (on_stateChange (service_rejecting ''A1'') 1000 ''S1''
                          example_allow2State example_state))) ''A1'' =
     map_of (agents example_state) ''A1''"
proof -
  note inst = on_stateChange_updates
    [of service_ok 1000 "''S1''" example_allow2State example_state "''A1''"]
  let ?ad = "(freshEntry ''A1'')\<lparr>childId := Some ''S1'', enabled := Some True\<rparr>"
  let ?a = "example_agent ''A1'' (Some ''win32'')"
  have sa: "steamAllowed example_allow2State"
    by (simp add: steamAllowed_def example_allow2State_def)
  have calls: "updateCalls (snd (on_stateChange service_ok 1000 ''S1'' example_allow2State example_state)) =
     [(''A1'', \<lparr>up_processName = Some ''Steam.exe'', up_allowed = Some True,
               up_checkInterval = None, up_enabled = None\<rparr>),
      (''A2'', \<lparr>up_processName = Some ''steam'', up_allowed = Some True,
               up_checkInterval = None, up_enabled = None\<rparr>)]"
    using inst
    by (simp add: updateCallsFor_def allowedPayload_def policyProcessName_def steamAllowed_def
        example_state_def example_allow2State_def example_agent_def service_ok_def freshEntry_def)
  have m: "?ad \<in> set (map snd (agents example_state))"
    by (simp add: example_state_def)
  have c: "childId ?ad = Some ''S1''" by simp
  have g: "getAgent service_ok (entry_id ?ad) = Inr (Some ?a)"
    by (simp add: service_ok_def freshEntry_def)
  have u: "updatePolicy service_ok (agent_id ?a)
             (allowedPayload example_state (agent_id ?a) (steamAllowed example_allow2State)) = None"
    by (simp add: service_ok_def)
  have k: "map_of (agents example_state) (agent_id ?a) \<noteq> None"
    by (simp add: example_state_def example_agent_def)
  from inst m c g u k
  have "\<exists>z. map_of (agents (fst (on_stateChange service_ok 1000 ''S1'' example_allow2State example_state)))
          (agent_id ?a) = Some z \<and> entry_allowed z = Some (steamAllowed example_allow2State)"
    by blast
  then have "\<exists>z. map_of (agents (fst (on_stateChange service_ok 1000 ''S1'' example_allow2State example_state)))
          ''A1'' = Some z \<and> entry_allowed z = Some True"
    using sa by (simp add: example_agent_def)
  note stored = this
  note rej = on_stateChange_updates
    [of "service_rejecting ''A1''" 1000 "''S1''" example_allow2State example_state "''A1''"]
  have g': "getAgent (service_rejecting ''A1'') (entry_id ?ad) = Inr (Some ?a)"
    by (simp add: service_rejecting_def service_ok_def freshEntry_def)
  have u': "updatePolicy (service_rejecting ''A1'') (agent_id ?a)
             (allowedPayload example_state (agent_id ?a) (steamAllowed example_allow2State)) \<noteq> None"
    by (simp add: service_rejecting_def example_agent_def)
  from rej m c g' u'
  have "map_of (agents (fst (on_stateChange (service_rejecting ''A1'') 1000 ''S1''
                          example_allow2State example_state))) (agent_id ?a) =
        map_of (agents example_state) (agent_id ?a)"
    by blast
  then have kept: "map_of (agents (fst (on_stateChange (service_rejecting ''A1'') 1000 ''S1''
                          example_allow2State example_state))) ''A1'' =
        map_of (agents example_state) ''A1''"
    by (simp add: example_agent_def)
  from calls stored kept show ?thesis by blast
qed

text \<open>
  C1 fails where the agent service does not cooperate. With agents \<^verbatim>\<open>A1\<close> and \<^verbatim>\<open>A2\<close>
  linked to subject \<^verbatim>\<open>S1\<close>, both with a policy, and the update
  \<^verbatim>\<open>{paused: false, quota: 10}\<close>: when \<^verbatim>\<open>getAgent\<close> answers \<^verbatim>\<open>null\<close>, no
  update-policy call is issued; when \<^verbatim>\<open>updatePolicy\<close> is rejected for \<^verbatim>\<open>A1\<close>, the
  call is issued with allowed = true but the entry of \<^verbatim>\<open>A1\<close> records no allowed value.
\<close>

theorem on_stateChange_counterexample:
  "steamAllowed example_allow2State \<and>
   updateCalls (snd (on_stateChange service_agent_gone 1000 ''S1'' example_allow2State example_state)) = [] \<and>
   updateCalls (snd (on_stateChange (service_rejecting ''A1'') 1000 ''S1'' example_allow2State example_state)) =
     [(''A1'', \<lparr>up_processName = Some ''Steam.exe'', up_allowed = Some True,
               up_checkInterval = None, up_enabled = None\<rparr>),
      (''A2'', \<lparr>up_processName = Some ''steam'', up_allowed = Some True,
               up_checkInterval = None, up_enabled = None\<rparr>)] \<and>
   map_option entry_allowed
     (map_of (agents (fst (on_stateChange (service_rejecting ''A1'') 1000 ''S1''
                            example_allow2State example_state))) ''A1'') = Some None"
  by (simp add: example_eval service_agent_gone_def service_rejecting_def)

section \<open>Fan-out over the agents\<close>














end
